theory Spec2Isabelle
  imports Main "HOL-Library.AList"
begin

section \<open>The DFHack command exerciser (dfhack-fuzzer.py)\<close>

text \<open>
  The script starts Dwarf Fortress, asks \<^verbatim>\<open>dfhack-run ls -a\<close> for the list of
  commands, runs every command without arguments and sorts the outcome into one of five
  buckets. This theory embeds its three parts: the class \<^verbatim>\<open>DFInstance\<close> (process
  supervision), \<^verbatim>\<open>get_commands\<close> (enumeration) and \<^verbatim>\<open>check\<close> (driver and
  classifier).

  Text and bytes are both \<^typ>\<open>string\<close>. A character of a decoded text stands for a
  code point below 256, which covers the ASCII output of \<^verbatim>\<open>dfhack-run\<close>; the
  string methods below are those of Python's \<^verbatim>\<open>str\<close> on that range.
\<close>

subsection \<open>Python's string methods\<close>

text \<open>\<^verbatim>\<open>s.startswith(p)\<close>.\<close>

definition startswith :: "string \<Rightarrow> string \<Rightarrow> bool" where
  "startswith p s = (take (length p) s = p)"

text \<open>\<^verbatim>\<open>sub in s\<close>: \<^verbatim>\<open>sub\<close> occurs in \<^verbatim>\<open>s\<close> at some position.\<close>

fun contains :: "string \<Rightarrow> string \<Rightarrow> bool" where
  "contains sub [] = (sub = [])"
| "contains sub (c # cs) = (startswith sub (c # cs) \<or> contains sub cs)"

text \<open>
  \<^verbatim>\<open>c.isspace()\<close> for a code point below 256: tab, line feed, vertical tab, form feed,
  carriage return, the four separators 0x1C to 0x1F, the space, NEL (0x85) and the
  no-break space (0xA0).
\<close>

definition isspace :: "char \<Rightarrow> bool" where
  "isspace c = ((of_char c :: nat) \<in> set [9, 10, 11, 12, 13, 28, 29, 30, 31, 32, 133, 160])"

definition lstrip :: "string \<Rightarrow> string" where
  "lstrip s = dropWhile isspace s"

definition rstrip :: "string \<Rightarrow> string" where
  "rstrip s = rev (dropWhile isspace (rev s))"

definition strip :: "string \<Rightarrow> string" where
  "strip s = lstrip (rstrip s)"

text \<open>
  \<^verbatim>\<open>s.lower()\<close> for code points below 256: the letters A to Z and the Latin-1 capitals
  0xC0 to 0xDE (the multiplication sign 0xD7 apart) move up by 32.
\<close>

definition lower_char :: "char \<Rightarrow> char" where
  "lower_char c =
     (let n = (of_char c :: nat)
      in if (65 \<le> n \<and> n \<le> 90) \<or> (192 \<le> n \<and> n \<le> 222 \<and> n \<noteq> 215)
         then char_of (n + 32) else c)"

definition lower :: "string \<Rightarrow> string" where
  "lower s = map lower_char s"

text \<open>
  \<^verbatim>\<open>s.split(sep)\<close> with a separator: the pieces between the occurrences of \<^verbatim>\<open>sep\<close>,
  found from the left without overlap. \<^verbatim>\<open>acc\<close> holds the current piece, reversed.
  Both call sites pass a non-empty literal (Python raises ValueError on an empty one).
\<close>

function split_from :: "string \<Rightarrow> string \<Rightarrow> string \<Rightarrow> string list" where
  "split_from sep acc [] = [rev acc]"
| "split_from sep acc (c # cs) =
     (if sep \<noteq> [] \<and> startswith sep (c # cs)
      then rev acc # split_from sep [] (drop (length sep) (c # cs))
      else split_from sep (c # acc) cs)"
  by pat_completeness auto
termination
  by (relation "measure (\<lambda>(sep, acc, s). length s)") auto

definition split :: "string \<Rightarrow> string \<Rightarrow> string list" where
  "split sep s = split_from sep [] s"

text \<open>\<^verbatim>\<open>s.replace(old, new)\<close> for a non-empty \<^verbatim>\<open>old\<close>, as at its one call site.\<close>

function replace :: "string \<Rightarrow> string \<Rightarrow> string \<Rightarrow> string" where
  "replace old new [] = []"
| "replace old new (c # cs) =
     (if old \<noteq> [] \<and> startswith old (c # cs)
      then new @ replace old new (drop (length old) (c # cs))
      else c # replace old new cs)"
  by pat_completeness auto
termination
  by (relation "measure (\<lambda>(old, new, s). length s)") auto

abbreviation LF :: string where
  "LF \<equiv> [CHR 0x0A]"

abbreviation CRLF :: string where
  "CRLF \<equiv> [CHR 0x0D, CHR 0x0A]"

subsection \<open>The classifier: the if/elif chain of \<^verbatim>\<open>check\<close>\<close>

datatype OutcomeCategory = Ok | ScriptTraceback | Crashed | WrongContext | Failed

text \<open>The key under which \<^verbatim>\<open>check\<close> files a result of each category.\<close>

fun bucket :: "OutcomeCategory \<Rightarrow> string" where
  "bucket Ok = ''ok''"
| "bucket ScriptTraceback = ''script_traceback''"
| "bucket Crashed = ''crashed_DF''"
| "bucket WrongContext = ''wrong_UI_context''"
| "bucket Failed = ''failed''"

definition sentinel :: string where
  "sentinel = ''In call to ::RunCommand: I/O error in receive header.''"

text \<open>
  \<^verbatim>\<open>firstline = out.split('\n')[0].strip()\<close>. The list that \<^verbatim>\<open>split\<close> returns is
  never empty (lemma \<open>split_not_Nil\<close>), so element 0 exists.
\<close>

definition firstline_of :: "string \<Rightarrow> string" where
  "firstline_of out = strip (hd (split LF out))"

text \<open>
  Lines 145 to 155 of \<^verbatim>\<open>check\<close>, for the command \<^verbatim>\<open>cmd\<close>, the exit code
  \<^verbatim>\<open>proc.returncode\<close> and the decoded output \<^verbatim>\<open>out\<close> with its line ends normalised.
\<close>

definition classify :: "string \<Rightarrow> int \<Rightarrow> string \<Rightarrow> OutcomeCategory" where
  "classify cmd returncode out =
     (let firstline = firstline_of out
      in if returncode = 0 then Ok
         else if contains (''/hack/scripts/'' @ cmd) out then ScriptTraceback
         else if startswith sentinel out then Crashed
         else if contains '' UI'' firstline \<or> contains ''cursor'' (lower firstline)
           then WrongContext
         else Failed)"

subsection \<open>Processes, effects and the environment\<close>

text \<open>The exceptions that the script can raise.\<close>

datatype error = AssertionError | OSError | ValueError | IndexError | UnicodeDecodeError

text \<open>
  A \<^verbatim>\<open>subprocess.Popen\<close> object with its attribute \<^verbatim>\<open>returncode\<close>, which is
  \<^verbatim>\<open>None\<close> when the object is made, and the \<^verbatim>\<open>CompletedProcess\<close> that
  \<^verbatim>\<open>subprocess.run\<close> returns.
\<close>

datatype Popen = Popen (popen_returncode: "int option")

datatype CompletedProcess = CompletedProcess (returncode: int) (stdout: string)

text \<open>The fields of \<^verbatim>\<open>DFInstance\<close>; \<open>proc\<close> is \<^verbatim>\<open>self._proc\<close>.\<close>

record DFInstance =
  df_exe :: string
  dfhack_run :: string
  proc :: "Popen option"

text \<open>
  What the script does to the world outside, in order: the call of
  \<^verbatim>\<open>SetErrorMode\<close> with its flag, the call of \<^verbatim>\<open>subprocess.Popen\<close> with the
  executable and the creation flags (the working directory is that of the executable),
  the call of \<^verbatim>\<open>subprocess.run\<close> with its argument list, \<^verbatim>\<open>time.sleep\<close>, and
  the two uses of \<^verbatim>\<open>print\<close>.
\<close>

datatype event =
    SetErrorMode int
  | Launch string int
  | Command "string list"
  | Sleep int
  | Print string
  | PrintCounts "(string \<times> nat) list"

record world =
  inst :: DFInstance
  effects :: "event list"

text \<open>
  What the script reads from outside. The host and the file system may answer
  differently as time passes, so their answers depend on the effects so far.
  \<^item> \<open>win\<close>: \<^verbatim>\<open>sys.platform.startswith("win")\<close>;
  \<^item> \<open>glob\<close>: \<^verbatim>\<open>glob.glob(pattern)\<close>;
  \<^item> \<open>exe_path d name\<close>: \<^verbatim>\<open>path.abspath(path.join(d, name))\<close>;
  \<^item> \<open>spawn\<close>: whether \<^verbatim>\<open>subprocess.Popen\<close> starts the executable (it raises
    an \<^verbatim>\<open>OSError\<close> otherwise);
  \<^item> \<open>isdir_region1\<close>: \<^verbatim>\<open>path.isdir\<close> of \<^verbatim>\<open>data/save/region1\<close> beside the
    executable;
  \<^item> \<open>dfhack\<close>: the \<^verbatim>\<open>CompletedProcess\<close> of \<^verbatim>\<open>subprocess.run\<close> on an argument
    list, \<open>None\<close> when it raises an \<^verbatim>\<open>OSError\<close>;
  \<^item> \<open>decode\<close>: \<^verbatim>\<open>bytes.decode('utf-8')\<close>, \<open>None\<close> when it raises.
\<close>

record env =
  win :: bool
  glob :: "string \<Rightarrow> string list"
  exe_path :: "string \<Rightarrow> string \<Rightarrow> string"
  spawn :: "event list \<Rightarrow> string \<Rightarrow> bool"
  isdir_region1 :: "event list \<Rightarrow> string \<Rightarrow> bool"
  dfhack :: "event list \<Rightarrow> string list \<Rightarrow> CompletedProcess option"
  decode :: "string \<Rightarrow> string option"

text \<open>A call returns a value or raises, and leaves a world behind either way.\<close>

type_synonym 'a result = "(error + 'a) \<times> world"

definition emit :: "event \<Rightarrow> world \<Rightarrow> world" where
  "emit ev w = w\<lparr>effects := effects w @ [ev]\<rparr>"

definition set_proc :: "Popen option \<Rightarrow> world \<Rightarrow> world" where
  "set_proc p w = w\<lparr>inst := (inst w)\<lparr>proc := p\<rparr>\<rparr>"

subsection \<open>The class \<^verbatim>\<open>DFInstance\<close>\<close>

text \<open>\<^verbatim>\<open>__init__\<close>; \<^verbatim>\<open>pattern or '...'\<close> replaces \<^verbatim>\<open>None\<close> and the empty string.\<close>

definition DFInstance_init :: "env \<Rightarrow> string option \<Rightarrow> error + DFInstance" where
  "DFInstance_init e pattern =
     (let pattern = (case pattern of
                       None \<Rightarrow> ''Dwarf Fortress 0.??.??''
                     | Some p \<Rightarrow> if p = [] then ''Dwarf Fortress 0.??.??'' else p)
      in case glob e pattern of
           [] \<Rightarrow> Inl IndexError
         | df_dir # _ \<Rightarrow>
             Inr \<lparr>df_exe = exe_path e df_dir ''Dwarf Fortress.exe'',
                  dfhack_run = exe_path e df_dir ''dfhack-run.exe'',
                  proc = None\<rparr>)"

text \<open>
  The test \<^verbatim>\<open>self._proc is None or self._proc.returncode is not None\<close> of
  \<^verbatim>\<open>open\<close>.
\<close>

definition must_launch :: "world \<Rightarrow> bool" where
  "must_launch w =
     (case proc (inst w) of None \<Rightarrow> True | Some p \<Rightarrow> popen_returncode p \<noteq> None)"

text \<open>
  \<^verbatim>\<open>open\<close> and \<^verbatim>\<open>run\<close> call each other: \<^verbatim>\<open>run\<close> opens the instance first, and
  \<^verbatim>\<open>open\<close> loads the save through \<^verbatim>\<open>run\<close> once it has stored the new process.
  The recursion ends because that inner \<^verbatim>\<open>open\<close> finds the process it was just given.
\<close>

function "open" :: "env \<Rightarrow> world \<Rightarrow> unit result"
  and run :: "env \<Rightarrow> string list \<Rightarrow> bool \<Rightarrow> world \<Rightarrow> CompletedProcess result"
where
  "open e w =
     (let w1 = (if win e then emit (SetErrorMode 2) w else w);
          subprocess_flags = (if win e then 0x8000000 else 0)
      in if must_launch w1
         then
           (let w2 = emit (Launch (df_exe (inst w1)) subprocess_flags) w1
            in if \<not> spawn e (effects w1) (df_exe (inst w1)) then (Inl OSError, w2)
               else
                 (let w3 = set_proc (Some (Popen None)) w2
                  in if isdir_region1 e (effects w3) (df_exe (inst w3))
                     then (case run e [''load-save'', ''region1''] False w3 of
                             (Inl err, w4) \<Rightarrow> (Inl err, w4)
                           | (Inr _, w4) \<Rightarrow> (Inr (), emit (Sleep 10) w4))
                     else (Inr (), emit (Print (''region1 not found - create world and embark for more ''
                                  @ ''useful results (fewer UI context failures)'')) w3)))
         else (Inr (), w1))"
| "run e commands safe w =
     (if commands = [] then (Inl AssertionError, w)
      else
        (case open e w of
           (Inl err, w1) \<Rightarrow> (Inl err, w1)
         | (Inr _, w1) \<Rightarrow>
             (let w2 = emit (Command (dfhack_run (inst w1) # commands)) w1
              in case dfhack e (effects w1) (dfhack_run (inst w1) # commands) of
                   None \<Rightarrow> (Inl OSError, w2)
                 | Some out \<Rightarrow>
                     (if startswith sentinel (stdout out)
                      then (Inr out, set_proc None w2)
                      else (Inr out, w2)))))"
  by pat_completeness auto
termination
  by (relation "measure (\<lambda>x. case x of
           Inl (e, w) \<Rightarrow> (if must_launch w then 2 else 0)
         | Inr (e, commands, safe, w) \<Rightarrow> (if must_launch w then 3 else 1))")
     (auto simp: must_launch_def emit_def set_proc_def split: option.splits if_splits)

text \<open>Both equations unfold for any arguments, so they are used by hand.\<close>

declare open.simps [simp del] run.simps [simp del]

text \<open>\<^verbatim>\<open>__exit__\<close>: asks the host to end; it returns \<^verbatim>\<open>None\<close>.\<close>

definition DFInstance_exit :: "env \<Rightarrow> world \<Rightarrow> unit result" where
  "DFInstance_exit e w =
     (let w1 = emit (Command [dfhack_run (inst w), ''die'']) w
      in case dfhack e (effects w) [dfhack_run (inst w), ''die''] of
           None \<Rightarrow> (Inl OSError, w1)
         | Some _ \<Rightarrow> (Inr (), w1))"

text \<open>
  \<^verbatim>\<open>with DFInstance(pattern) as hack: body\<close>. \<^verbatim>\<open>__enter__\<close> hands out \<^verbatim>\<open>run\<close>,
  so the body works on the new instance; \<^verbatim>\<open>__exit__\<close> runs however the body ends,
  and an exception of the body goes on afterwards.
\<close>

definition with_DFInstance ::
  "env \<Rightarrow> string option \<Rightarrow> (world \<Rightarrow> 'a result) \<Rightarrow> event list \<Rightarrow> (error + 'a) \<times> event list"
where
  "with_DFInstance e pattern body es =
     (case DFInstance_init e pattern of
        Inl err \<Rightarrow> (Inl err, es)
      | Inr self \<Rightarrow>
          (case body \<lparr>inst = self, effects = es\<rparr> of
             (r, w1) \<Rightarrow>
               (case DFInstance_exit e w1 of
                  (Inl err, w2) \<Rightarrow> (Inl err, effects w2)
                | (Inr _, w2) \<Rightarrow> (r, effects w2))))"

subsection \<open>\<^verbatim>\<open>get_commands\<close>\<close>

text \<open>\<^verbatim>\<open>lines.index(x)\<close>: the first position of \<^verbatim>\<open>x\<close>, or a \<^verbatim>\<open>ValueError\<close>.\<close>

fun index :: "string list \<Rightarrow> string \<Rightarrow> error + nat" where
  "index [] x = Inl ValueError"
| "index (y # ys) x =
     (if y = x then Inr 0
      else case index ys x of Inl err \<Rightarrow> Inl err | Inr i \<Rightarrow> Inr (Suc i))"

text \<open>
  The comprehension
  \<^verbatim>\<open>[line.split(' - ')[0].strip() for line in lines
     if line.startswith('  ') and not line[2] == ' ']\<close>.
  \<^verbatim>\<open>line[2]\<close> is read only behind the two spaces, and raises an \<^verbatim>\<open>IndexError\<close>
  when the line ends there.
\<close>

fun command_names :: "string list \<Rightarrow> error + string list" where
  "command_names [] = Inr []"
| "command_names (line # lines) =
     (if startswith ''  '' line \<and> length line \<le> 2 then Inl IndexError
      else case command_names lines of
             Inl err \<Rightarrow> Inl err
           | Inr commands \<Rightarrow>
               Inr (if startswith ''  '' line \<and> \<not> line ! 2 = CHR '' ''
                    then strip (hd (split '' - '' line)) # commands
                    else commands))"

text \<open>\<^verbatim>\<open>any(c.startswith(p) for p in ('devel/', 'ssense', 'stonesense'))\<close>.\<close>

definition denied :: "string \<Rightarrow> bool" where
  "denied c = list_ex (\<lambda>p. startswith p c) [''devel/'', ''ssense'', ''stonesense'']"

text \<open>Lines 127 to 133, on the decoded text of the listing.\<close>

definition commands_of_text :: "string \<Rightarrow> error + string list" where
  "commands_of_text text =
     (let lines = map rstrip (split LF text)
      in case index lines ''plugins:'' of
           Inl err \<Rightarrow> Inl err
         | Inr i \<Rightarrow>
             (case command_names (drop (i + 1) lines) of
                Inl err \<Rightarrow> Inl err
              | Inr commands \<Rightarrow> Inr (filter (\<lambda>c. \<not> denied c) commands)))"

definition parse_listing :: "env \<Rightarrow> CompletedProcess \<Rightarrow> error + string list" where
  "parse_listing e result =
     (case decode e (stdout result) of
        None \<Rightarrow> Inl UnicodeDecodeError
      | Some text \<Rightarrow> commands_of_text text)"

text \<open>
  \<^verbatim>\<open>get_commands(hack)\<close> with the \<^verbatim>\<open>run\<close> of an instance, as \<^verbatim>\<open>check\<close> calls it,
  and \<^verbatim>\<open>get_commands()\<close>, which makes an instance of its own for the listing.
\<close>

definition get_commands :: "env \<Rightarrow> world \<Rightarrow> string list result" where
  "get_commands e w =
     (case run e [''ls'', ''-a''] True w of
        (Inl err, w1) \<Rightarrow> (Inl err, w1)
      | (Inr result, w1) \<Rightarrow> (parse_listing e result, w1))"

definition get_commands_alone :: "env \<Rightarrow> event list \<Rightarrow> (error + string list) \<times> event list" where
  "get_commands_alone e es =
     (case with_DFInstance e (Some ''Dwarf Fortress 0.??.??'') (run e [''ls'', ''-a''] True) es of
        (Inl err, es1) \<Rightarrow> (Inl err, es1)
      | (Inr result, es1) \<Rightarrow> (parse_listing e result, es1))"

subsection \<open>\<^verbatim>\<open>check\<close>\<close>

text \<open>
  \<^verbatim>\<open>results\<close>: a dictionary from bucket keys to dictionaries from commands to outputs.
  Python's dictionaries keep the order of insertion, so both levels are association
  lists; \<^const>\<open>AList.update\<close> replaces the value of a key in place and puts a new key at
  the end, as an assignment to \<^verbatim>\<open>d[k]\<close> does.
\<close>

type_synonym report = "(string \<times> (string \<times> string) list) list"

text \<open>
  \<^verbatim>\<open>results[key][cmd] = out\<close> on a \<^verbatim>\<open>defaultdict(dict)\<close>: a missing key starts
  from the empty dictionary.
\<close>

definition record_result :: "string \<Rightarrow> string \<Rightarrow> string \<Rightarrow> report \<Rightarrow> report" where
  "record_result key cmd out results =
     (let d = (case map_of results key of None \<Rightarrow> [] | Some d \<Rightarrow> d)
      in AList.update key (AList.update cmd out d) results)"

text \<open>The loop \<^verbatim>\<open>for cmd in ...\<close> of \<^verbatim>\<open>check\<close>, over the commands still to run.\<close>

fun check_loop :: "env \<Rightarrow> string list \<Rightarrow> report \<Rightarrow> world \<Rightarrow> report result" where
  "check_loop e [] results w = (Inr results, w)"
| "check_loop e (cmd # cmds) results w =
     (case run e [cmd] True w of
        (Inl err, w1) \<Rightarrow> (Inl err, w1)
      | (Inr p, w1) \<Rightarrow>
          (case decode e (stdout p) of
             None \<Rightarrow> (Inl UnicodeDecodeError, w1)
           | Some text \<Rightarrow>
               (let out = replace CRLF LF text
                in check_loop e cmds
                     (record_result (bucket (classify cmd (returncode p) out)) cmd out results)
                     w1)))"

definition check :: "env \<Rightarrow> string option \<Rightarrow> event list \<Rightarrow> (error + report) \<times> event list" where
  "check e glob_pattern es =
     (case with_DFInstance e glob_pattern
             (\<lambda>w. case get_commands e w of
                     (Inl err, w1) \<Rightarrow> (Inl err, w1)
                   | (Inr cmds, w1) \<Rightarrow> check_loop e cmds [] w1) es of
        (Inl err, es1) \<Rightarrow> (Inl err, es1)
      | (Inr results, es1) \<Rightarrow>
          (Inr results, es1 @ [PrintCounts (map (\<lambda>(k, v). (k, length v)) results)]))"

text \<open>The commands filed under a bucket key of a report.\<close>

definition bucket_keys :: "report \<Rightarrow> string \<Rightarrow> string set" where
  "bucket_keys results key = (case map_of results key of None \<Rightarrow> {} | Some d \<Rightarrow> fst ` set d)"

text \<open>
  What the loop keeps true of the report and of the set of commands already run: the
  keys of the report are bucket names and differ from each other, the commands filed are
  the commands run, and no command is filed under two keys.
\<close>

definition filed :: "report \<Rightarrow> string set \<Rightarrow> bool" where
  "filed results seen =
     (distinct (map fst results)
      \<and> fst ` set results \<subseteq> range bucket
      \<and> (\<forall>c. (c \<in> seen) = (\<exists>k. c \<in> bucket_keys results k))
      \<and> (\<forall>c k k'. c \<in> bucket_keys results k \<and> c \<in> bucket_keys results k' \<longrightarrow> k = k'))"

subsection \<open>A host to run the script against\<close>

text \<open>
  A host that answers as in the four cases of a typical session: \<^verbatim>\<open>reveal\<close> succeeds
  silently, \<^verbatim>\<open>quickfort\<close> prints a script traceback, \<^verbatim>\<open>gui/foo\<close> complains about
  the UI state, and \<^verbatim>\<open>crashy\<close> takes the host down. It runs on Windows, so lines end
  in CR LF, and a save \<^verbatim>\<open>region1\<close> exists.
\<close>

definition scenario_host :: "event list \<Rightarrow> string list \<Rightarrow> CompletedProcess option" where
  "scenario_host es argv =
     (let cmd = last argv
      in if cmd = ''-a'' then Some (CompletedProcess 0
              (''plugins:'' @ CRLF @ ''  devel/foo - x'' @ CRLF @ ''  reveal - y'' @ CRLF
               @ ''  stonesensei - z'' @ CRLF))
         else if cmd = ''reveal'' then Some (CompletedProcess 0 [])
         else if cmd = ''quickfort''
           then Some (CompletedProcess 1 (''/hack/scripts/quickfort.lua:12: error'' @ CRLF))
         else if cmd = ''gui/foo''
           then Some (CompletedProcess 1 (''Error: invalid UI state'' @ CRLF))
         else if cmd = ''crashy'' then Some (CompletedProcess 1 sentinel)
         else Some (CompletedProcess 1 ''not recognized''))"

definition scenario :: env where
  "scenario =
     \<lparr>win = True,
      glob = (\<lambda>pattern. [''Dwarf Fortress 0.43.05'']),
      exe_path = (\<lambda>d name. d @ ''/'' @ name),
      spawn = (\<lambda>es exe. True),
      isdir_region1 = (\<lambda>es exe. True),
      dfhack = scenario_host,
      decode = Some\<rparr>"

text \<open>The world before anything has run, and the world once the host is up.\<close>

definition fresh :: world where
  "fresh = \<lparr>inst = \<lparr>df_exe = ''Dwarf Fortress 0.43.05/Dwarf Fortress.exe'',
                     dfhack_run = ''Dwarf Fortress 0.43.05/dfhack-run.exe'',
                     proc = None\<rparr>,
            effects = []\<rparr>"

definition started :: world where
  "started = \<lparr>inst = \<lparr>df_exe = ''Dwarf Fortress 0.43.05/Dwarf Fortress.exe'',
                       dfhack_run = ''Dwarf Fortress 0.43.05/dfhack-run.exe'',
                       proc = Some (Popen None)\<rparr>,
              effects = [SetErrorMode 2,
                         Launch ''Dwarf Fortress 0.43.05/Dwarf Fortress.exe'' 0x8000000,
                         SetErrorMode 2,
                         Command [''Dwarf Fortress 0.43.05/dfhack-run.exe'', ''load-save'',
                                  ''region1''],
                         Sleep 10]\<rparr>"

section \<open>Properties\<close>

subsection \<open>Strings\<close>

lemma split_from_not_Nil: "split_from sep acc s \<noteq> []"
  by (induction sep acc s rule: split_from.induct) auto

lemma split_not_Nil: "split sep s \<noteq> []"
  by (simp add: split_def split_from_not_Nil)

lemma startswith_append: "startswith p (p @ s)"
  by (simp add: startswith_def)

lemma startswith_length: "startswith p s \<Longrightarrow> length p \<le> length s"
proof -
  assume "startswith p s"
  then have "length (take (length p) s) = length p"
    by (simp only: startswith_def)
  then show ?thesis by simp
qed

lemma bucket_inj: "bucket a = bucket b \<Longrightarrow> a = b"
  by (cases a; cases b) simp_all

lemmas str_eval = classify_def firstline_of_def split_def startswith_def strip_def lstrip_def
  rstrip_def isspace_def lower_def lower_char_def sentinel_def char_of_eq_iff

lemma sentinel_length: "length sentinel = 53"
  by (simp add: sentinel_def)

lemma not_startswith_space:
  assumes "ws \<noteq> []" and "list_all isspace ws"
  shows "\<not> startswith sentinel (ws @ rest)"
proof
  assume h: "startswith sentinel (ws @ rest)"
  obtain w ws' where ws: "ws = w # ws'" using assms(1) by (cases ws) auto
  from h have "take (length sentinel) (ws @ rest) = sentinel"
    by (simp only: startswith_def)
  then have "hd (take (length sentinel) (ws @ rest)) = hd sentinel" by simp
  then have "w = CHR ''I''"
    by (simp add: ws sentinel_length) (simp add: sentinel_def)
  moreover have "isspace w" using assms(2) by (simp add: ws)
  ultimately show False by (simp add: isspace_def)
qed

lemma not_startswith_truncated:
  assumes "n < length sentinel"
  shows "\<not> startswith sentinel (take n sentinel)"
proof
  assume "startswith sentinel (take n sentinel)"
  then have "length sentinel \<le> length (take n sentinel)" by (rule startswith_length)
  with assms show False by simp
qed

subsection \<open>The classifier\<close>

lemma classify_Crashed_iff:
  "(classify cmd rc out = Crashed) =
     (rc \<noteq> 0 \<and> \<not> contains (''/hack/scripts/'' @ cmd) out \<and> startswith sentinel out)"
  by (simp add: classify_def Let_def)

text \<open>
  Claim C1. The classifier is a total function of the command, the exit code and the
  output, so it returns exactly one category, and its checks apply in the order of the
  source, the first match winning: exit code 0 gives \<open>Ok\<close> whatever the output holds;
  otherwise the script path gives \<open>ScriptTraceback\<close>; otherwise the sentinel prefix gives
  \<open>Crashed\<close>; only the rest reaches the context check.
\<close>

theorem classify_exit_zero_first:
  "classify cmd 0 out = Ok
   \<and> (\<exists>!c. classify cmd rc out = c)
   \<and> (classify cmd rc out = Ok) = (rc = 0)
   \<and> (classify cmd rc out = ScriptTraceback) =
       (rc \<noteq> 0 \<and> contains (''/hack/scripts/'' @ cmd) out)
   \<and> (classify cmd rc out = Crashed) =
       (rc \<noteq> 0 \<and> \<not> contains (''/hack/scripts/'' @ cmd) out
        \<and> startswith sentinel out)
   \<and> (classify cmd rc out \<in> {WrongContext, Failed}) =
       (rc \<noteq> 0 \<and> \<not> contains (''/hack/scripts/'' @ cmd) out
        \<and> \<not> startswith sentinel out)"
  by (simp add: classify_def Let_def)

text \<open>
  An output that begins with the sentinel and also holds \<open>UI\<close>, \<open>cursor\<close> and the script
  path of the command: \<open>Ok\<close> with exit code 0, \<open>ScriptTraceback\<close> with exit code 1.
\<close>

theorem classify_exit_zero_first_witness:
  "classify ''x'' 0 (sentinel @ '' UI cursor /hack/scripts/x'') = Ok
   \<and> startswith sentinel (sentinel @ '' UI cursor /hack/scripts/x'')
   \<and> contains (''/hack/scripts/'' @ ''x'') (sentinel @ '' UI cursor /hack/scripts/x'')
   \<and> classify ''x'' 1 (sentinel @ '' UI cursor /hack/scripts/x'') = ScriptTraceback"
  using classify_exit_zero_first [of "''x''" "sentinel @ '' UI cursor /hack/scripts/x''" 1]
  by (simp add: startswith_def sentinel_def)

text \<open>
  Claim C3. With a non-zero exit code and no script path in the output, the category is
  \<open>Crashed\<close> exactly when the output starts with the sentinel. A near miss is not
  \<open>Crashed\<close>: neither the sentinel behind leading whitespace, nor the sentinel cut short.
\<close>

theorem classify_crashed_iff_sentinel_prefix:
  assumes "rc \<noteq> 0" and "\<not> contains (''/hack/scripts/'' @ cmd) out"
  shows "(classify cmd rc out = Crashed) = startswith sentinel out
     \<and> (ws \<noteq> [] \<and> list_all isspace ws \<longrightarrow>
          classify cmd rc (ws @ sentinel @ rest) \<noteq> Crashed)
     \<and> (n < length sentinel \<longrightarrow> classify cmd rc (take n sentinel) \<noteq> Crashed)"
  using assms
  by (simp add: classify_Crashed_iff not_startswith_space not_startswith_truncated)

theorem classify_crashed_iff_sentinel_prefix_witness:
  "(1::int) \<noteq> 0 \<and> \<not> contains (''/hack/scripts/'' @ ''crashy'') (sentinel @ LF)
   \<and> startswith sentinel (sentinel @ LF)
   \<and> classify ''crashy'' 1 (sentinel @ LF) = Crashed
   \<and> '' '' \<noteq> [] \<and> list_all isspace '' ''
   \<and> classify ''crashy'' 1 ('' '' @ sentinel @ LF) \<noteq> Crashed
   \<and> 52 < length sentinel
   \<and> classify ''crashy'' 1 (take 52 sentinel) \<noteq> Crashed"
proof -
  have a: "(1::int) \<noteq> 0" by simp
  have b: "\<not> contains (''/hack/scripts/'' @ ''crashy'') (sentinel @ LF)"
    by (simp add: sentinel_def startswith_def)
  have c: "startswith sentinel (sentinel @ LF)" by (rule startswith_append)
  have d: "'' '' \<noteq> [] \<and> list_all isspace '' ''" by (simp add: isspace_def)
  have e: "52 < length sentinel" by (simp add: sentinel_length)
  from classify_crashed_iff_sentinel_prefix [OF a b, of "'' ''" LF 52] c d e
  show ?thesis using a b by simp
qed

text \<open>
  Claim C4, as stated, fails: the source tests \<^verbatim>\<open>' UI' in firstline\<close> on the first line
  after \<^verbatim>\<open>strip()\<close>, not on the untrimmed one. For the command \<^verbatim>\<open>x\<close>, exit code 1
  and the output \<^verbatim>\<open>" UI"\<close>, the untrimmed first line contains \<^verbatim>\<open>" UI"\<close>, the trimmed
  one is \<^verbatim>\<open>"UI"\<close>, and the category is \<open>Failed\<close>.
\<close>

theorem classify_untrimmed_UI_counterexample:
  "(1::int) \<noteq> 0
   \<and> \<not> contains (''/hack/scripts/'' @ ''x'') '' UI''
   \<and> \<not> startswith sentinel '' UI''
   \<and> contains '' UI'' (hd (split LF '' UI''))
   \<and> classify ''x'' 1 '' UI'' = Failed"
  by (simp add: str_eval)

text \<open>
  Claim C4, amended. For a result that reaches the last check (non-zero exit code, no
  script path, no sentinel prefix) the category is \<open>WrongContext\<close> exactly when the
  trimmed first line contains \<^verbatim>\<open>cursor\<close> in any letter case or the trimmed first line
  contains \<^verbatim>\<open>" UI"\<close>; otherwise it is \<open>Failed\<close>.
\<close>

theorem classify_wrong_context_trimmed:
  assumes "rc \<noteq> 0" and "\<not> contains (''/hack/scripts/'' @ cmd) out"
    and "\<not> startswith sentinel out"
  shows "(classify cmd rc out = WrongContext) =
           (contains ''cursor'' (lower (strip (hd (split LF out))))
            \<or> contains '' UI'' (strip (hd (split LF out))))
       \<and> (classify cmd rc out = Failed) =
           (\<not> (contains ''cursor'' (lower (strip (hd (split LF out))))
               \<or> contains '' UI'' (strip (hd (split LF out)))))"
  using assms by (auto simp add: classify_def firstline_of_def Let_def)

theorem classify_wrong_context_trimmed_witness:
  "classify ''gui/foo'' 1 (''Error: invalid UI state'' @ LF) = WrongContext
   \<and> classify ''x'' 1 '' UI'' = Failed"
proof -
  have a: "(1::int) \<noteq> 0" by simp
  have b: "\<not> contains (''/hack/scripts/'' @ ''gui/foo'') (''Error: invalid UI state'' @ LF)"
    by (simp add: startswith_def)
  have c: "\<not> startswith sentinel (''Error: invalid UI state'' @ LF)"
    by (simp add: startswith_def sentinel_def)
  have d: "contains '' UI'' (strip (hd (split LF (''Error: invalid UI state'' @ LF))))"
    by (simp add: str_eval)
  have b': "\<not> contains (''/hack/scripts/'' @ ''x'') '' UI''"
    by (simp add: startswith_def)
  have c': "\<not> startswith sentinel '' UI''"
    by (simp add: startswith_def sentinel_def)
  have d': "\<not> (contains ''cursor'' (lower (strip (hd (split LF '' UI''))))
               \<or> contains '' UI'' (strip (hd (split LF '' UI''))))"
    by (simp add: str_eval)
  from classify_wrong_context_trimmed [OF a b c] d
     classify_wrong_context_trimmed [OF a b' c'] d'
  show ?thesis by simp
qed

subsection \<open>The supervisor\<close>

lemma effects_emit: "effects (emit ev w) = effects w @ [ev]"
  by (simp add: emit_def)

lemma inst_emit: "inst (emit ev w) = inst w"
  by (simp add: emit_def)

lemma effects_set_proc: "effects (set_proc p w) = effects w"
  by (simp add: set_proc_def)

lemma inst_set_proc: "inst (set_proc p w) = (inst w)\<lparr>proc := p\<rparr>"
  by (simp add: set_proc_def)

lemmas world_simps = effects_emit inst_emit effects_set_proc inst_set_proc

lemma must_launch_emit: "must_launch (emit ev w) = must_launch w"
  by (simp add: must_launch_def emit_def)

lemma must_launch_set_proc_None: "must_launch (set_proc None w)"
  by (simp add: must_launch_def set_proc_def)

lemma not_must_launch_fresh: "\<not> must_launch (set_proc (Some (Popen None)) w)"
  by (simp add: must_launch_def set_proc_def)

lemma open_live:
  assumes "\<not> must_launch w"
  shows "open e w = (Inr (), if win e then emit (SetErrorMode 2) w else w)"
  using assms by (subst open.simps) (simp add: Let_def must_launch_emit)

lemma run_live:
  assumes "\<not> must_launch w" and "commands \<noteq> []"
  shows "run e commands safe w =
     (let w1 = (if win e then emit (SetErrorMode 2) w else w);
          w2 = emit (Command (dfhack_run (inst w1) # commands)) w1
      in case dfhack e (effects w1) (dfhack_run (inst w1) # commands) of
           None \<Rightarrow> (Inl OSError, w2)
         | Some out \<Rightarrow>
             (if startswith sentinel (stdout out)
              then (Inr out, set_proc None w2)
              else (Inr out, w2)))"
  using assms by (subst run.simps) (simp add: open_live Let_def)

lemma open_not_AssertionError: "fst (open e w) \<noteq> Inl AssertionError"
proof (cases "must_launch w")
  case False
  then show ?thesis by (simp add: open_live)
next
  case True
  show ?thesis
    by (subst open.simps)
       (simp add: Let_def run_live not_must_launch_fresh must_launch_emit
             split: option.splits prod.splits sum.splits)
qed

lemma open_launches:
  assumes "must_launch w"
  shows "\<exists>es. effects (snd (open e w)) =
           effects w @ (if win e then [SetErrorMode 2] else [])
             @ Launch (df_exe (inst w)) (if win e then 0x8000000 else 0) # es"
  using assms
  by (subst open.simps)
     (simp add: Let_def run_live not_must_launch_fresh must_launch_emit world_simps
           split: option.splits)

lemma open_scenario_fresh: "open scenario fresh = (Inr (), started)"
  by code_simp

text \<open>
  Claim C8. With a process stored whose \<^verbatim>\<open>returncode\<close> is \<^verbatim>\<open>None\<close>,
  \<^verbatim>\<open>open\<close> returns normally and leaves the instance as it was. The only effect it can
  add is the call of \<^verbatim>\<open>SetErrorMode\<close> on Windows: no process is launched, no
  \<^verbatim>\<open>load-save\<close> is sent, and nothing sleeps.
\<close>

theorem open_idempotent_when_live:
  assumes "proc (inst w) = Some p" and "popen_returncode p = None"
  shows "fst (open e w) = Inr ()
       \<and> inst (snd (open e w)) = inst w
       \<and> effects (snd (open e w)) = effects w @ (if win e then [SetErrorMode 2] else [])"
proof -
  have "\<not> must_launch w" using assms by (simp add: must_launch_def)
  then show ?thesis by (simp add: open_live emit_def)
qed

theorem open_idempotent_when_live_witness:
  "proc (inst started) = Some (Popen None) \<and> popen_returncode (Popen None) = None
   \<and> fst (open scenario started) = Inr ()
   \<and> inst (snd (open scenario started)) = inst started
   \<and> effects (snd (open scenario started)) = effects started @ [SetErrorMode 2]"
proof -
  have a: "proc (inst started) = Some (Popen None)" by (simp add: started_def)
  have b: "popen_returncode (Popen None) = None" by simp
  have c: "win scenario" by (simp add: scenario_def)
  from open_idempotent_when_live [OF a b, of scenario] a b c show ?thesis by simp
qed

text \<open>
  Claim C9. \<^verbatim>\<open>run\<close> without arguments raises an \<^verbatim>\<open>AssertionError\<close> and leaves the
  world untouched, so nothing has been done to the host; with at least one argument no
  \<^verbatim>\<open>AssertionError\<close> comes out of it.
\<close>

theorem run_asserts_commands:
  "run e [] safe w = (Inl AssertionError, w)
   \<and> (commands \<noteq> [] \<longrightarrow> fst (run e commands safe w) \<noteq> Inl AssertionError)"
proof -
  have "run e [] safe w = (Inl AssertionError, w)"
    by (subst run.simps) simp
  moreover have "fst (run e commands safe w) \<noteq> Inl AssertionError" if "commands \<noteq> []"
    using that open_not_AssertionError [of e w]
    by (subst run.simps) (auto simp: Let_def split: prod.splits sum.splits option.splits)
  ultimately show ?thesis by simp
qed

theorem run_asserts_commands_witness:
  "run scenario [] True fresh = (Inl AssertionError, fresh)
   \<and> [''reveal''] \<noteq> []
   \<and> fst (run scenario [''reveal''] True fresh) \<noteq> Inl AssertionError"
  using run_asserts_commands [of scenario True fresh "[''reveal'']"] by simp

text \<open>
  Claim C10. \<^verbatim>\<open>safe\<close> is never read: both values give the same result and the same
  world, for every environment, argument list and starting world.
\<close>

theorem run_ignores_safe: "run e commands True w = run e commands False w"
  by (simp only: run.simps)

text \<open>
  Claim C2. When \<^verbatim>\<open>open\<close> has succeeded and the answer of \<^verbatim>\<open>dfhack-run\<close> starts
  with the sentinel (in particular when it is the sentinel), \<^verbatim>\<open>run\<close> returns that
  answer, and in the world it leaves \<^verbatim>\<open>self._proc\<close> is \<^verbatim>\<open>None\<close>, so that the next
  \<^verbatim>\<open>open\<close> calls \<^verbatim>\<open>subprocess.Popen\<close> again.
\<close>

theorem run_sentinel_clears_proc:
  assumes "commands \<noteq> []"
    and "open e w = (Inr (), w1)"
    and "dfhack e (effects w1) (dfhack_run (inst w1) # commands) = Some out"
    and "startswith sentinel (stdout out)"
  shows "\<exists>w'. run e commands safe w = (Inr out, w')
           \<and> proc (inst w') = None
           \<and> (\<exists>es. effects (snd (open e w')) =
                 effects w' @ (if win e then [SetErrorMode 2] else [])
                   @ Launch (df_exe (inst w')) (if win e then 0x8000000 else 0) # es)"
proof -
  let ?w' = "set_proc None (emit (Command (dfhack_run (inst w1) # commands)) w1)"
  have "run e commands safe w = (Inr out, ?w')"
    using assms by (subst run.simps) (simp add: Let_def)
  moreover have "proc (inst ?w') = None" by (simp add: set_proc_def)
  moreover have "must_launch ?w'" by (rule must_launch_set_proc_None)
  ultimately show ?thesis using open_launches [of ?w' e] by blast
qed

theorem run_sentinel_clears_proc_witness:
  "\<exists>w'. run scenario [''crashy''] True fresh = (Inr (CompletedProcess 1 sentinel), w')
         \<and> proc (inst w') = None
         \<and> (\<exists>es. effects (snd (open scenario w')) =
               effects w' @ [SetErrorMode 2] @ Launch (df_exe (inst w')) 0x8000000 # es)"
proof -
  have a: "[''crashy''] \<noteq> []" by simp
  have b: "dfhack scenario (effects started) (dfhack_run (inst started) # [''crashy''])
             = Some (CompletedProcess 1 sentinel)"
    by (simp add: scenario_def scenario_host_def)
  have c: "startswith sentinel (stdout (CompletedProcess 1 sentinel))"
    by (simp add: startswith_def)
  have d: "win scenario" by (simp add: scenario_def)
  from run_sentinel_clears_proc [OF a open_scenario_fresh b c, of True] d
  show ?thesis by simp
qed

subsection \<open>The enumerator\<close>

lemma startswith_iff_append: "startswith p s = (\<exists>rest. s = p @ rest)"
proof
  assume "startswith p s"
  then have "take (length p) s = p" by (simp only: startswith_def)
  then have "s = p @ drop (length p) s" by (metis append_take_drop_id)
  then show "\<exists>rest. s = p @ rest" ..
next
  assume "\<exists>rest. s = p @ rest"
  then show "startswith p s" by (auto simp: startswith_append)
qed

lemma index_ValueError_iff: "(index ys x = Inl ValueError) = (x \<notin> set ys)"
  by (induction ys) (auto split: sum.splits)

lemma index_Inl: "index ys x = Inl err \<Longrightarrow> err = ValueError"
  by (induction ys arbitrary: err) (auto split: sum.splits if_splits)

lemma rstrip_last: "rstrip s \<noteq> [] \<Longrightarrow> \<not> isspace (last (rstrip s))"
proof -
  assume a: "rstrip s \<noteq> []"
  then have b: "dropWhile isspace (rev s) \<noteq> []" by (simp add: rstrip_def)
  then have "\<not> isspace (hd (dropWhile isspace (rev s)))" by (rule hd_dropWhile)
  moreover have "last (rstrip s) = hd (dropWhile isspace (rev s))"
    using b by (simp add: rstrip_def last_rev)
  ultimately show ?thesis by simp
qed

lemma rstrip_two_spaces: "startswith ''  '' (rstrip s) \<Longrightarrow> 2 < length (rstrip s)"
proof (rule ccontr)
  assume a: "startswith ''  '' (rstrip s)" and b: "\<not> 2 < length (rstrip s)"
  from a have "take 2 (rstrip s) = ''  ''" by (simp add: startswith_def numeral_2_eq_2)
  moreover from b have "take 2 (rstrip s) = rstrip s" by simp
  ultimately have c: "rstrip s = ''  ''" by simp
  then have "rstrip s \<noteq> []" by simp
  then have "\<not> isspace (last (rstrip s))" by (rule rstrip_last)
  with c show False by (simp add: isspace_def)
qed

lemma command_names_rstrip:
  "command_names (map rstrip ls) =
     Inr (map (\<lambda>line. strip (hd (split '' - '' line)))
            (filter (\<lambda>line. startswith ''  '' line \<and> \<not> line ! 2 = CHR '' '') (map rstrip ls)))"
proof (induction ls)
  case Nil
  show ?case by simp
next
  case (Cons l ls)
  have "\<not> (startswith ''  '' (rstrip l) \<and> length (rstrip l) \<le> 2)"
    using rstrip_two_spaces [of l] by auto
  with Cons show ?case by simp
qed

text \<open>
  Claim C6. The lines of the listing are the pieces between line feeds with their trailing
  whitespace removed. When none of them is \<^verbatim>\<open>plugins:\<close>, \<^verbatim>\<open>lines.index\<close> raises a
  \<^verbatim>\<open>ValueError\<close> and so does \<^verbatim>\<open>get_commands\<close>: no list comes back, empty or partial.
\<close>

theorem commands_of_text_no_marker:
  assumes "''plugins:'' \<notin> set (map rstrip (split LF text))"
  shows "commands_of_text text = Inl ValueError
       \<and> (decode e (stdout result) = Some text \<longrightarrow> parse_listing e result = Inl ValueError)
       \<and> (run e [''ls'', ''-a''] True w = (Inr result, w1) \<and> decode e (stdout result) = Some text
            \<longrightarrow> get_commands e w = (Inl ValueError, w1))"
proof -
  have "index (map rstrip (split LF text)) ''plugins:'' = Inl ValueError"
    using assms by (simp add: index_ValueError_iff)
  then have "commands_of_text text = Inl ValueError"
    by (simp add: commands_of_text_def)
  then show ?thesis by (simp add: parse_listing_def get_commands_def)
qed

theorem commands_of_text_no_marker_witness:
  "''plugins:'' \<notin> set (map rstrip (split LF
       (''  devel/foo - x'' @ LF @ ''  reveal - y'' @ LF @ ''  stonesensei - z'')))
   \<and> commands_of_text (''  devel/foo - x'' @ LF @ ''  reveal - y'' @ LF @ ''  stonesensei - z'')
       = Inl ValueError"
proof -
  have a: "''plugins:'' \<notin> set (map rstrip (split LF
       (''  devel/foo - x'' @ LF @ ''  reveal - y'' @ LF @ ''  stonesensei - z'')))"
    by code_simp
  from commands_of_text_no_marker [OF a] a show ?thesis by simp
qed

text \<open>
  Claim C7. For the listing of the three lines \<^verbatim>\<open>devel/foo\<close>, \<^verbatim>\<open>reveal\<close> and
  \<^verbatim>\<open>stonesensei\<close> behind the marker the result is \<^verbatim>\<open>["reveal"]\<close>. A second listing
  shows a line with three spaces and a line with one space left out, the name cut at the
  first \<^verbatim>\<open>" - "\<close>, and a name kept that holds \<^verbatim>\<open>stonesense\<close> elsewhere than at its
  start. In general, with the marker at position \<open>i\<close>, the result is made of the lines
  behind it that start with two spaces and have no space as third character, each cut
  before its first \<^verbatim>\<open>" - "\<close> and trimmed, without the names that start with a denied
  prefix.
\<close>

theorem commands_of_text_filters:
  "commands_of_text
      (''plugins:'' @ LF @ ''  devel/foo - x'' @ LF @ ''  reveal - y'' @ LF @ ''  stonesensei - z'')
     = Inr [''reveal'']
   \<and> commands_of_text
      (''plugins:'' @ LF @ ''  reveal - y - w'' @ LF @ ''   three - spaces'' @ LF
        @ '' one - space'' @ LF @ ''  my-stonesense - z'' @ LF @ ''  ssense - q'')
     = Inr [''reveal'', ''my-stonesense'']
   \<and> (index (map rstrip (split LF text)) ''plugins:'' = Inr i \<longrightarrow>
        commands_of_text text =
          Inr (filter (\<lambda>c. \<not> denied c)
                (map (\<lambda>line. strip (hd (split '' - '' line)))
                  (filter (\<lambda>line. startswith ''  '' line \<and> \<not> line ! 2 = CHR '' '')
                    (drop (i + 1) (map rstrip (split LF text)))))))
   \<and> denied c = (\<exists>rest. c = ''devel/'' @ rest \<or> c = ''ssense'' @ rest
                          \<or> c = ''stonesense'' @ rest)"
proof -
  have a: "commands_of_text
      (''plugins:'' @ LF @ ''  devel/foo - x'' @ LF @ ''  reveal - y'' @ LF @ ''  stonesensei - z'')
     = Inr [''reveal'']"
    by code_simp
  have b: "commands_of_text
      (''plugins:'' @ LF @ ''  reveal - y - w'' @ LF @ ''   three - spaces'' @ LF
        @ '' one - space'' @ LF @ ''  my-stonesense - z'' @ LF @ ''  ssense - q'')
     = Inr [''reveal'', ''my-stonesense'']"
    by code_simp
  have c: "commands_of_text text =
          Inr (filter (\<lambda>c. \<not> denied c)
                (map (\<lambda>line. strip (hd (split '' - '' line)))
                  (filter (\<lambda>line. startswith ''  '' line \<and> \<not> line ! 2 = CHR '' '')
                    (drop (i + 1) (map rstrip (split LF text))))))"
    if "index (map rstrip (split LF text)) ''plugins:'' = Inr i"
  proof -
    have "drop (i + 1) (map rstrip (split LF text)) = map rstrip (drop (i + 1) (split LF text))"
      by (simp add: drop_map)
    then show ?thesis
      using that by (simp add: commands_of_text_def command_names_rstrip)
  qed
  have d: "denied c = (\<exists>rest. c = ''devel/'' @ rest \<or> c = ''ssense'' @ rest
                          \<or> c = ''stonesense'' @ rest)"
    by (auto simp add: denied_def startswith_iff_append)
  from a b c d show ?thesis by blast
qed

theorem commands_of_text_filters_witness:
  "index (map rstrip (split LF (''plugins:'' @ LF @ ''  reveal - y''))) ''plugins:'' = Inr 0
   \<and> commands_of_text (''plugins:'' @ LF @ ''  reveal - y'') =
       Inr (filter (\<lambda>c. \<not> denied c)
             (map (\<lambda>line. strip (hd (split '' - '' line)))
               (filter (\<lambda>line. startswith ''  '' line \<and> \<not> line ! 2 = CHR '' '')
                 (drop (0 + 1) (map rstrip (split LF (''plugins:'' @ LF @ ''  reveal - y'')))))))"
proof -
  have a: "index (map rstrip (split LF (''plugins:'' @ LF @ ''  reveal - y''))) ''plugins:'' = Inr 0"
    by code_simp
  from commands_of_text_filters [of "''plugins:'' @ LF @ ''  reveal - y''" 0] a
  show ?thesis by blast
qed

subsection \<open>The driver\<close>

lemma bucket_keys_Nil: "bucket_keys [] key = {}"
  by (simp add: bucket_keys_def)

lemma bucket_keys_record_result:
  "bucket_keys (record_result key cmd out results) k =
     (if k = key then insert cmd (bucket_keys results key) else bucket_keys results k)"
  by (simp add: bucket_keys_def record_result_def Let_def AList.update_conv' AList.dom_update
           split: option.splits)

lemma keys_record_result:
  "fst ` set (record_result key cmd out results) = insert key (fst ` set results)"
  by (simp add: record_result_def Let_def AList.dom_update)

lemma distinct_record_result:
  "distinct (map fst results) \<Longrightarrow> distinct (map fst (record_result key cmd out results))"
  by (simp add: record_result_def Let_def AList.distinct_update)

lemma filed_Nil: "filed [] {}"
  by (simp add: filed_def bucket_keys_Nil)

lemma filed_record_result:
  assumes "filed results seen" and "cmd \<notin> seen"
  shows "filed (record_result (bucket cat) cmd out results) (insert cmd seen)"
proof -
  let ?r = "record_result (bucket cat) cmd out results"
  have nowhere: "cmd \<notin> bucket_keys results k" for k
    using assms by (auto simp: filed_def)
  have "distinct (map fst ?r)"
    using assms(1) by (simp add: filed_def distinct_record_result)
  moreover have "fst ` set ?r \<subseteq> range bucket"
    using assms(1) by (auto simp: filed_def keys_record_result)
  moreover have "(c \<in> insert cmd seen) = (\<exists>k. c \<in> bucket_keys ?r k)" for c
  proof -
    have "(\<exists>k. c \<in> bucket_keys ?r k) = (c = cmd \<or> (\<exists>k. c \<in> bucket_keys results k))"
    proof
      assume "\<exists>k. c \<in> bucket_keys ?r k"
      then obtain k where "c \<in> bucket_keys ?r k" ..
      then show "c = cmd \<or> (\<exists>k. c \<in> bucket_keys results k)"
        by (auto simp: bucket_keys_record_result split: if_splits)
    next
      assume "c = cmd \<or> (\<exists>k. c \<in> bucket_keys results k)"
      then show "\<exists>k. c \<in> bucket_keys ?r k"
      proof
        assume "c = cmd"
        then have "c \<in> bucket_keys ?r (bucket cat)"
          by (simp add: bucket_keys_record_result)
        then show ?thesis ..
      next
        assume "\<exists>k. c \<in> bucket_keys results k"
        then obtain k where "c \<in> bucket_keys results k" ..
        then have "c \<in> bucket_keys ?r k"
          by (auto simp: bucket_keys_record_result)
        then show ?thesis ..
      qed
    qed
    with assms(1) show ?thesis by (auto simp: filed_def)
  qed
  moreover have "k = k'" if "c \<in> bucket_keys ?r k" and "c \<in> bucket_keys ?r k'" for c k k'
  proof (cases "c = cmd")
    case True
    with that nowhere show ?thesis
      by (auto simp: bucket_keys_record_result split: if_splits)
  next
    case False
    with that have "c \<in> bucket_keys results k" and "c \<in> bucket_keys results k'"
      by (auto simp: bucket_keys_record_result split: if_splits)
    with assms(1) show ?thesis unfolding filed_def by blast
  qed
  ultimately show ?thesis unfolding filed_def by blast
qed

lemma check_loop_filed:
  assumes "check_loop e cmds results w = (Inr results', w')"
    and "distinct cmds" and "set cmds \<inter> seen = {}" and "filed results seen"
  shows "filed results' (seen \<union> set cmds)"
  using assms
proof (induction cmds arbitrary: results w seen)
  case Nil
  then show ?case by simp
next
  case (Cons cmd cmds)
  from Cons.prems(1) obtain p w1 decoded where
    step: "check_loop e cmds
             (record_result (bucket (classify cmd (returncode p) (replace CRLF LF decoded)))
                cmd (replace CRLF LF decoded) results) w1 = (Inr results', w')"
    by (auto simp: Let_def split: prod.splits sum.splits option.splits)
  have "cmd \<notin> seen" using Cons.prems(3) by auto
  with Cons.prems(4)
  have "filed (record_result (bucket (classify cmd (returncode p) (replace CRLF LF decoded)))
                cmd (replace CRLF LF decoded) results) (insert cmd seen)"
    by (rule filed_record_result)
  moreover have "distinct cmds" and "set cmds \<inter> insert cmd seen = {}"
    using Cons.prems(2,3) by auto
  ultimately have "filed results' (insert cmd seen \<union> set cmds)"
    using Cons.IH [OF step] by blast
  then show ?case by simp
qed

lemma check_loop_scenario:
  "fst (check_loop scenario [''reveal'', ''quickfort'', ''gui/foo'', ''crashy''] [] fresh) =
     Inr [(''ok'', [(''reveal'', [])]),
          (''script_traceback'', [(''quickfort'', ''/hack/scripts/quickfort.lua:12: error'' @ LF)]),
          (''wrong_UI_context'', [(''gui/foo'', ''Error: invalid UI state'' @ LF)]),
          (''crashed_DF'', [(''crashy'', sentinel)])]"
  by code_simp

text \<open>
  Claim C5. When the loop of \<^verbatim>\<open>check\<close> runs through a list of commands without
  repetition and returns a report, every command is filed under exactly one of the five
  bucket keys, the commands filed under the five keys together are the commands of the
  list, and the report has no other keys.
\<close>

theorem check_loop_partitions:
  assumes "distinct cmds" and "check_loop e cmds [] w = (Inr results, w')"
  shows "(\<forall>cmd \<in> set cmds. \<exists>!cat. cmd \<in> bucket_keys results (bucket cat))
       \<and> (\<Union>cat. bucket_keys results (bucket cat)) = set cmds
       \<and> fst ` set results \<subseteq> range bucket
       \<and> distinct (map fst results)"
proof -
  have f: "filed results (set cmds)"
    using check_loop_filed [OF assms(2) assms(1), of "{}"] filed_Nil by simp
  have keys: "k \<in> range bucket" if "c \<in> bucket_keys results k" for c k
  proof -
    from that obtain d where "map_of results k = Some d"
      by (auto simp: bucket_keys_def split: option.splits)
    then have "k \<in> fst ` set results" by (metis map_of_SomeD fst_conv image_eqI)
    with f show ?thesis unfolding filed_def by blast
  qed
  have "\<exists>!cat. cmd \<in> bucket_keys results (bucket cat)" if "cmd \<in> set cmds" for cmd
  proof -
    from f that obtain k where k: "cmd \<in> bucket_keys results k" unfolding filed_def by blast
    with keys obtain cat where "k = bucket cat" by blast
    with k have ex: "cmd \<in> bucket_keys results (bucket cat)" by simp
    have "cat' = cat" if "cmd \<in> bucket_keys results (bucket cat')" for cat'
    proof -
      from f that ex have "bucket cat' = bucket cat" unfolding filed_def by blast
      then show ?thesis by (rule bucket_inj)
    qed
    with ex show ?thesis by blast
  qed
  moreover have "(\<Union>cat. bucket_keys results (bucket cat)) = set cmds"
  proof
    show "(\<Union>cat. bucket_keys results (bucket cat)) \<subseteq> set cmds"
      using f unfolding filed_def by blast
    show "set cmds \<subseteq> (\<Union>cat. bucket_keys results (bucket cat))"
    proof
      fix c assume "c \<in> set cmds"
      with f obtain k where k: "c \<in> bucket_keys results k" unfolding filed_def by blast
      with keys obtain cat where "k = bucket cat" by blast
      with k show "c \<in> (\<Union>cat. bucket_keys results (bucket cat))" by blast
    qed
  qed
  moreover have "fst ` set results \<subseteq> range bucket" and "distinct (map fst results)"
    using f unfolding filed_def by blast+
  ultimately show ?thesis by blast
qed


text \<open>
  The whole of \<^verbatim>\<open>check\<close> against the host above: the listing leaves \<^verbatim>\<open>reveal\<close>
  alone, which succeeds.
\<close>

lemma check_scenario:
  "fst (check scenario None []) = Inr [(''ok'', [(''reveal'', [])])]"
  by code_simp

text \<open>
  The four commands of the session above end in four different buckets.
\<close>

theorem check_loop_partitions_witness:
  "distinct [''reveal'', ''quickfort'', ''gui/foo'', ''crashy'']
   \<and> fst (check_loop scenario [''reveal'', ''quickfort'', ''gui/foo'', ''crashy''] [] fresh) =
       Inr [(''ok'', [(''reveal'', [])]),
            (''script_traceback'', [(''quickfort'', ''/hack/scripts/quickfort.lua:12: error'' @ LF)]),
            (''wrong_UI_context'', [(''gui/foo'', ''Error: invalid UI state'' @ LF)]),
            (''crashed_DF'', [(''crashy'', sentinel)])]
   \<and> (\<exists>!cat. ''crashy'' \<in> bucket_keys
            [(''ok'', [(''reveal'', [])]),
             (''script_traceback'', [(''quickfort'', ''/hack/scripts/quickfort.lua:12: error'' @ LF)]),
             (''wrong_UI_context'', [(''gui/foo'', ''Error: invalid UI state'' @ LF)]),
             (''crashed_DF'', [(''crashy'', sentinel)])] (bucket cat))
   \<and> (\<Union>cat. bucket_keys
            [(''ok'', [(''reveal'', [])]),
             (''script_traceback'', [(''quickfort'', ''/hack/scripts/quickfort.lua:12: error'' @ LF)]),
             (''wrong_UI_context'', [(''gui/foo'', ''Error: invalid UI state'' @ LF)]),
             (''crashed_DF'', [(''crashy'', sentinel)])] (bucket cat))
       = set [''reveal'', ''quickfort'', ''gui/foo'', ''crashy'']"
proof -
  let ?cmds = "[''reveal'', ''quickfort'', ''gui/foo'', ''crashy'']"
  let ?R = "[(''ok'', [(''reveal'', [])]),
             (''script_traceback'', [(''quickfort'', ''/hack/scripts/quickfort.lua:12: error'' @ LF)]),
             (''wrong_UI_context'', [(''gui/foo'', ''Error: invalid UI state'' @ LF)]),
             (''crashed_DF'', [(''crashy'', sentinel)])]"
  have a: "distinct ?cmds" by simp
  have b: "check_loop scenario ?cmds [] fresh
             = (Inr ?R, snd (check_loop scenario ?cmds [] fresh))"
    by (rule prod_eqI) (simp_all only: fst_conv snd_conv check_loop_scenario)
  note c = check_loop_partitions [OF a b]
  have m: "''crashy'' \<in> set ?cmds" by simp
  show ?thesis
    by (rule conjI [OF a conjI [OF check_loop_scenario
          conjI [OF bspec [OF conjunct1 [OF c] m] conjunct1 [OF conjunct2 [OF c]]]]])
qed

end
